theory Spec2Isabelle
  imports Complex_Main
begin

section \<open>The single-league simulator \<open>sim_league\<close>\<close>

text \<open>
  The embedding follows \<^verbatim>\<open>src/sim_ranked.py\<close>.

  Python's unbounded integers are \<open>int\<close>. A finite Python float is a rational number and
  the only float operation of \<^verbatim>\<open>sim_league\<close> is the comparison
  \<^verbatim>\<open>win_rate > cutoff\<close>, which is exact, so win rates and random draws are \<open>rat\<close>
  (\<^verbatim>\<open>nan\<close> and the infinities are outside the model).

  The process-wide generator behind \<^verbatim>\<open>random.random()\<close> is the sequence of the values
  its successive calls return during one call of \<^verbatim>\<open>sim_league\<close>: \<open>rng n\<close> is what
  call number \<open>n\<close> (from 0) returns. The library promises values in \<open>[0, 1)\<close>.
\<close>

type_synonym rng = "nat \<Rightarrow> rat"

definition unit_draws :: "rng \<Rightarrow> bool" where
  "unit_draws rng \<longleftrightarrow> (\<forall>n. 0 \<le> rng n \<and> rng n < 1)"

text \<open>
  One pass through the body of the \<^verbatim>\<open>for\<close> loop is one game. The record says what the
  pass did: whether the \<^verbatim>\<open>if win_rate > cutoff\<close> branch was taken, whether the
  assignment \<^verbatim>\<open>win_rate = quals_win_rate\<close> was executed, the values of the locals
  \<^verbatim>\<open>total_stars\<close> and \<^verbatim>\<open>win_rate\<close> when the pass ends, and whether it ended in
  the \<^verbatim>\<open>return game + 1\<close> statement.
\<close>

record game =
  won :: bool
  switched :: bool
  stars_after :: int
  rate_after :: rat
  returned :: bool

text \<open>
  \<^verbatim>\<open>
        cutoff = random.random()
        if win_rate > cutoff:
            total_stars += 1
            if total_stars == quals_stop:
                win_rate = quals_win_rate
            elif total_stars == stars:
                return game + 1
        else:
            if not total_stars in stops:
                total_stars -= 1
  \<close>
\<close>

definition game_body :: "int \<Rightarrow> int set \<Rightarrow> int \<Rightarrow> rat \<Rightarrow> rat \<Rightarrow> int \<Rightarrow> rat \<Rightarrow> game" where
  "game_body stars stops quals_stop quals_win_rate cutoff total_stars win_rate =
     (if win_rate > cutoff then
        (let total_stars = total_stars + 1 in
         if total_stars = quals_stop then
           \<lparr>won = True, switched = True, stars_after = total_stars,
              rate_after = quals_win_rate, returned = False\<rparr>
         else if total_stars = stars then
           \<lparr>won = True, switched = False, stars_after = total_stars,
              rate_after = win_rate, returned = True\<rparr>
         else
           \<lparr>won = True, switched = False, stars_after = total_stars,
              rate_after = win_rate, returned = False\<rparr>)
      else
        (if total_stars \<notin> stops then
           \<lparr>won = False, switched = False, stars_after = total_stars - 1,
              rate_after = win_rate, returned = False\<rparr>
         else
           \<lparr>won = False, switched = False, stars_after = total_stars,
              rate_after = win_rate, returned = False\<rparr>))"

text \<open>
  What one call leaves behind: the returned integer, the number of calls of
  \<^verbatim>\<open>random.random()\<close> it made, and the games it played, in order.
\<close>

record trial =
  result :: int
  draws_used :: nat
  games :: "game list"

text \<open>
  \<^verbatim>\<open>for game in range(games_played):\<close> with the \<^verbatim>\<open>return 0\<close> after it. The loop
  variable \<open>game\<close> counts from 0; pass number \<open>game\<close> makes call number \<open>game\<close> of the
  generator.
\<close>

function loop ::
  "int \<Rightarrow> int set \<Rightarrow> int \<Rightarrow> rat \<Rightarrow> int \<Rightarrow> rng \<Rightarrow> int \<Rightarrow> int \<Rightarrow> rat \<Rightarrow> trial" where
  "loop stars stops quals_stop quals_win_rate games_played rng game total_stars win_rate =
     (if game < games_played then
        (let g = game_body stars stops quals_stop quals_win_rate (rng (nat game))
                   total_stars win_rate in
         if returned g then
           \<lparr>result = game + 1, draws_used = 1, games = [g]\<rparr>
         else
           (let t = loop stars stops quals_stop quals_win_rate games_played rng (game + 1)
                      (stars_after g) (rate_after g) in
            \<lparr>result = result t, draws_used = Suc (draws_used t), games = g # games t\<rparr>))
      else
        \<lparr>result = 0, draws_used = 0, games = []\<rparr>)"
  by pat_completeness auto
termination
  by (relation "measure (\<lambda>(stars, stops, quals_stop, quals_win_rate, games_played, rng, game,
        total_stars, win_rate). nat (games_played - game))") auto

text \<open>
  \<^verbatim>\<open>if not quals_win_rate:\<close> is taken for \<^verbatim>\<open>None\<close> and for a number equal to zero.
\<close>

definition py_not :: "rat option \<Rightarrow> bool" where
  "py_not quals_win_rate = (case quals_win_rate of None \<Rightarrow> True | Some r \<Rightarrow> r = 0)"

text \<open>
  What a call of \<^verbatim>\<open>sim_league\<close> returns to its caller together with the state it
  leaves: \<open>stops_after\<close> is the content of the caller's list object after the call.
\<close>

record call =
  trial_of :: trial
  stops_after :: "int list"

text \<open>
  \<^verbatim>\<open>
    stops.append(0)
    stops = set(stops)
    quals_stop = max(stops)
    if not quals_win_rate:
        quals_win_rate = win_rate
    total_stars = 0
  \<close>
  \<^verbatim>\<open>stops.append(0)\<close> acts on the list object the caller passed; the rebinding to a
  set on the next line is local.
\<close>

definition sim_league :: "int \<Rightarrow> int list \<Rightarrow> rat \<Rightarrow> rat option \<Rightarrow> int \<Rightarrow> rng \<Rightarrow> call" where
  "sim_league stars stops win_rate quals_win_rate games_played rng =
     (let stops_list = stops @ [0];
          stops = set stops_list;
          quals_stop = Max stops;
          quals_win_rate = (if py_not quals_win_rate then win_rate else the quals_win_rate)
      in \<lparr>trial_of = loop stars stops quals_stop quals_win_rate games_played rng 0 0 win_rate,
          stops_after = stops_list\<rparr>)"

text \<open>
  The values the local \<^verbatim>\<open>total_stars\<close> takes during a trial: its initial value 0, then
  its value at the end of each game.
\<close>

definition counter_values :: "trial \<Rightarrow> int list" where
  "counter_values t = 0 # map stars_after (games t)"

section \<open>The checks of the command-line options\<close>

text \<open>
  \<^verbatim>\<open>docopt\<close> hands every option over as text: \<^verbatim>\<open>--stop\<close> as a list of strings
  (empty when the option was not given), \<^verbatim>\<open>--quals_win_rate\<close> as \<^verbatim>\<open>None\<close> or a string,
  the others as a string (they have defaults).
\<close>

record options =
  opt_stars :: string
  opt_stop :: "string list"
  opt_win_rate :: string
  opt_quals_win_rate :: "string option"
  opt_games_played :: string
  opt_runs :: string

text \<open>
  The module-level variables the checks leave behind for the simulation runs.
\<close>

record settings =
  set_stars :: int
  set_stops :: "int list"
  set_win_rate :: rat
  set_quals_win_rate :: rat
  set_games_played :: int
  set_runs :: int

text \<open>
  Every failure is a \<^verbatim>\<open>ValueError\<close>; the constructor says which \<^verbatim>\<open>raise\<close> statement
  it comes from. \<open>Bad_literal\<close> is the \<^verbatim>\<open>ValueError\<close> of the builtins \<^verbatim>\<open>int()\<close> and
  \<^verbatim>\<open>float()\<close> on text they cannot convert.
\<close>

datatype value_error =
  Bad_literal
| Bad_stars
| Bad_stops
| Bad_win_rate
| Bad_quals_win_rate
| Bad_games_played
| Bad_runs

definition DEFAULT_STOPS :: "int list" where
  "DEFAULT_STOPS = [1, 2, 6, 14]"

text \<open>
  \<^verbatim>\<open>
    stops = []
    for stop in stops_text:
        stops.append(int(stop))
  \<close>
\<close>

fun convert_stops :: "(string \<Rightarrow> int option) \<Rightarrow> string list \<Rightarrow> value_error + int list" where
  "convert_stops int_of [] = Inr []"
| "convert_stops int_of (stop # stops_text) =
     (case int_of stop of
        None \<Rightarrow> Inl Bad_literal
      | Some n \<Rightarrow>
          (case convert_stops int_of stops_text of
             Inl e \<Rightarrow> Inl e
           | Inr stops \<Rightarrow> Inr (n # stops)))"

text \<open>
  The module-level code between \<^verbatim>\<open>options = docopt(__doc__)\<close> and the simulation runs,
  statement by statement. The builtins \<^verbatim>\<open>int()\<close> and \<^verbatim>\<open>float()\<close> are the parameters
  \<open>int_of\<close> and \<open>float_of\<close> (\<open>None\<close> where the builtin raises). A string is false in
  \<^verbatim>\<open>if not quals_win_rate_text\<close> when it is empty.
\<close>

definition check_inputs ::
  "(string \<Rightarrow> int option) \<Rightarrow> (string \<Rightarrow> rat option) \<Rightarrow> options \<Rightarrow> value_error + settings" where
  "check_inputs int_of float_of opts =
     (case int_of (opt_stars opts) of
        None \<Rightarrow> Inl Bad_literal
      | Some stars \<Rightarrow>
     if \<not> stars > 0 then Inl Bad_stars else
     (case (if opt_stop opts = [] then Inr DEFAULT_STOPS
            else (case convert_stops int_of (opt_stop opts) of
                    Inl e \<Rightarrow> Inl e
                  | Inr stops \<Rightarrow> if Min (set stops) < 0 then Inl Bad_stops else Inr stops)) of
        Inl e \<Rightarrow> Inl e
      | Inr stops \<Rightarrow>
     (case float_of (opt_win_rate opts) of
        None \<Rightarrow> Inl Bad_literal
      | Some win_rate \<Rightarrow>
     if win_rate < 0 \<or> win_rate > 1 then Inl Bad_win_rate else
     (case (if opt_quals_win_rate opts = None \<or> opt_quals_win_rate opts = Some []
            then Inr win_rate
            else (case float_of (the (opt_quals_win_rate opts)) of
                    None \<Rightarrow> Inl Bad_literal
                  | Some quals_win_rate \<Rightarrow>
                      if win_rate < 0 \<or> win_rate > 1 then Inl Bad_quals_win_rate
                      else Inr quals_win_rate)) of
        Inl e \<Rightarrow> Inl e
      | Inr quals_win_rate \<Rightarrow>
     (case int_of (opt_games_played opts) of
        None \<Rightarrow> Inl Bad_literal
      | Some games_played \<Rightarrow>
     if \<not> games_played > 0 then Inl Bad_games_played else
     (case int_of (opt_runs opts) of
        None \<Rightarrow> Inl Bad_literal
      | Some runs \<Rightarrow>
     if \<not> runs > 0 then Inl Bad_runs else
     Inr \<lparr>set_stars = stars, set_stops = stops, set_win_rate = win_rate,
          set_quals_win_rate = quals_win_rate, set_games_played = games_played,
          set_runs = runs\<rparr>))))))"


section \<open>The simulation runs and their summary\<close>

text \<open>
  \<^verbatim>\<open>
    num_quals = (results > 0).sum()
    proportion_quals = num_quals / runs
  \<close>
  \<open>results\<close> holds one returned value for each run, so \<open>runs\<close> is its length. The
  quotient is exact here; the float division of the source rounds it.
\<close>

definition num_quals :: "int list \<Rightarrow> nat" where
  "num_quals results = length (filter (\<lambda>r. r > 0) results)"

definition proportion_quals :: "int list \<Rightarrow> rat" where
  "proportion_quals results = of_nat (num_quals results) / of_nat (length results)"

section \<open>One pass of the loop at a time\<close>

text \<open>
  The defining equation of \<open>loop\<close> calls itself, so it is taken out of the simplifier's
  rules and replaced by one equation for each way a pass can end.
\<close>

declare loop.simps [simp del]

lemma loop_done:
  "\<not> game < games_played \<Longrightarrow>
   loop stars stops quals_stop quals_win_rate games_played rng game total_stars win_rate =
     \<lparr>result = 0, draws_used = 0, games = []\<rparr>"
  by (simp add: loop.simps)

lemma loop_return:
  "game < games_played \<Longrightarrow>
   returned (game_body stars stops quals_stop quals_win_rate (rng (nat game)) total_stars win_rate) \<Longrightarrow>
   loop stars stops quals_stop quals_win_rate games_played rng game total_stars win_rate =
     \<lparr>result = game + 1, draws_used = 1,
      games = [game_body stars stops quals_stop quals_win_rate (rng (nat game)) total_stars win_rate]\<rparr>"
  by (simp add: loop.simps [of _ _ _ _ _ _ game])

lemma loop_next:
  "game < games_played \<Longrightarrow>
   \<not> returned (game_body stars stops quals_stop quals_win_rate (rng (nat game)) total_stars win_rate) \<Longrightarrow>
   loop stars stops quals_stop quals_win_rate games_played rng game total_stars win_rate =
     (let g = game_body stars stops quals_stop quals_win_rate (rng (nat game)) total_stars win_rate;
          t = loop stars stops quals_stop quals_win_rate games_played rng (game + 1)
                (stars_after g) (rate_after g)
      in \<lparr>result = result t, draws_used = Suc (draws_used t), games = g # games t\<rparr>)"
  by (simp add: loop.simps [of _ _ _ _ _ _ game] Let_def)

lemma loop_result_range:
  "0 \<le> game \<Longrightarrow>
   result (loop stars stops quals_stop quals_win_rate games_played rng game total_stars win_rate) = 0
   \<or> (game < result (loop stars stops quals_stop quals_win_rate games_played rng game total_stars win_rate)
      \<and> result (loop stars stops quals_stop quals_win_rate games_played rng game total_stars win_rate)
          \<le> games_played)"
proof (induction stars stops quals_stop quals_win_rate games_played rng game total_stars win_rate
       rule: loop.induct)
  case (1 stars stops quals_stop quals_win_rate games_played rng game total_stars win_rate)
  let ?g = "game_body stars stops quals_stop quals_win_rate (rng (nat game)) total_stars win_rate"
  show ?case
  proof (cases "game < games_played")
    case False
    then show ?thesis by (simp add: loop_done)
  next
    case running: True
    show ?thesis
    proof (cases "returned ?g")
      case True
      with running show ?thesis by (simp add: loop_return)
    next
      case False
      from "1.IH" [OF running refl False] "1.prems"
      have "result (loop stars stops quals_stop quals_win_rate games_played rng (game + 1)
                (stars_after ?g) (rate_after ?g)) = 0
            \<or> (game + 1 < result (loop stars stops quals_stop quals_win_rate games_played rng (game + 1)
                (stars_after ?g) (rate_after ?g))
               \<and> result (loop stars stops quals_stop quals_win_rate games_played rng (game + 1)
                (stars_after ?g) (rate_after ?g)) \<le> games_played)"
        by simp
      with running False show ?thesis
        by (auto simp: loop_next Let_def)
    qed
  qed
qed

lemma game_body_floor:
  "q \<in> stops \<Longrightarrow> q \<le> total_stars \<Longrightarrow>
   q \<le> stars_after (game_body stars stops quals_stop quals_win_rate cutoff total_stars win_rate)"
  by (cases "total_stars = q") (auto simp: game_body_def Let_def)

lemma loop_floor:
  "q \<in> stops \<Longrightarrow> q \<le> total_stars \<Longrightarrow>
   \<forall>g \<in> set (games (loop stars stops quals_stop quals_win_rate games_played rng game
                        total_stars win_rate)). q \<le> stars_after g"
proof (induction stars stops quals_stop quals_win_rate games_played rng game total_stars win_rate
       rule: loop.induct)
  case (1 stars stops quals_stop quals_win_rate games_played rng game total_stars win_rate)
  let ?g = "game_body stars stops quals_stop quals_win_rate (rng (nat game)) total_stars win_rate"
  have here: "q \<le> stars_after ?g"
    using "1.prems" by (rule game_body_floor)
  show ?case
  proof (cases "game < games_played")
    case False
    then show ?thesis by (simp add: loop_done)
  next
    case running: True
    show ?thesis
    proof (cases "returned ?g")
      case True
      with running here show ?thesis by (simp add: loop_return)
    next
      case False
      from "1.IH" [OF running refl False "1.prems"(1) here] running False here
      show ?thesis by (simp add: loop_next Let_def)
    qed
  qed
qed

lemma game_body_switched:
  "switched (game_body stars stops quals_stop quals_win_rate cutoff total_stars win_rate) \<longleftrightarrow>
   won (game_body stars stops quals_stop quals_win_rate cutoff total_stars win_rate) \<and>
   stars_after (game_body stars stops quals_stop quals_win_rate cutoff total_stars win_rate)
     = quals_stop"
  by (simp add: game_body_def Let_def)

lemma game_body_switched_below:
  "switched (game_body stars stops quals_stop quals_win_rate cutoff total_stars win_rate) \<Longrightarrow>
   total_stars < quals_stop \<and>
   stars_after (game_body stars stops quals_stop quals_win_rate cutoff total_stars win_rate)
     = quals_stop"
  by (simp add: game_body_def Let_def split: if_splits)

lemma loop_switched_iff:
  "\<forall>g \<in> set (games (loop stars stops quals_stop quals_win_rate games_played rng game
                        total_stars win_rate)).
     switched g \<longleftrightarrow> won g \<and> stars_after g = quals_stop"
proof (induction stars stops quals_stop quals_win_rate games_played rng game total_stars win_rate
       rule: loop.induct)
  case (1 stars stops quals_stop quals_win_rate games_played rng game total_stars win_rate)
  let ?g = "game_body stars stops quals_stop quals_win_rate (rng (nat game)) total_stars win_rate"
  note here = game_body_switched [of stars stops quals_stop quals_win_rate "rng (nat game)"
      total_stars win_rate]
  show ?case
  proof (cases "game < games_played")
    case False
    then show ?thesis by (simp add: loop_done)
  next
    case running: True
    show ?thesis
    proof (cases "returned ?g")
      case True
      with running here show ?thesis by (simp add: loop_return)
    next
      case False
      from "1.IH" [OF running refl False] running False here
      show ?thesis by (simp add: loop_next Let_def)
    qed
  qed
qed

lemma loop_no_switch_above:
  "quals_stop \<in> stops \<Longrightarrow> quals_stop \<le> total_stars \<Longrightarrow>
   \<forall>g \<in> set (games (loop stars stops quals_stop quals_win_rate games_played rng game
                        total_stars win_rate)). \<not> switched g"
proof (induction stars stops quals_stop quals_win_rate games_played rng game total_stars win_rate
       rule: loop.induct)
  case (1 stars stops quals_stop quals_win_rate games_played rng game total_stars win_rate)
  let ?g = "game_body stars stops quals_stop quals_win_rate (rng (nat game)) total_stars win_rate"
  have floor: "quals_stop \<le> stars_after ?g"
    using "1.prems" by (rule game_body_floor)
  have here: "\<not> switched ?g"
    using game_body_switched_below [of stars stops quals_stop quals_win_rate "rng (nat game)"
        total_stars win_rate] "1.prems"(2) by auto
  show ?case
  proof (cases "game < games_played")
    case False
    then show ?thesis by (simp add: loop_done)
  next
    case running: True
    show ?thesis
    proof (cases "returned ?g")
      case True
      with running here show ?thesis by (simp add: loop_return)
    next
      case False
      from "1.IH" [OF running refl False "1.prems"(1) floor] running False here
      show ?thesis by (simp add: loop_next Let_def)
    qed
  qed
qed

lemma loop_switch_once:
  "quals_stop \<in> stops \<Longrightarrow>
   length (filter switched (games (loop stars stops quals_stop quals_win_rate games_played rng
                                    game total_stars win_rate))) \<le> 1"
proof (induction stars stops quals_stop quals_win_rate games_played rng game total_stars win_rate
       rule: loop.induct)
  case (1 stars stops quals_stop quals_win_rate games_played rng game total_stars win_rate)
  let ?g = "game_body stars stops quals_stop quals_win_rate (rng (nat game)) total_stars win_rate"
  let ?rest = "loop stars stops quals_stop quals_win_rate games_played rng (game + 1)
                 (stars_after ?g) (rate_after ?g)"
  show ?case
  proof (cases "game < games_played")
    case False
    then show ?thesis by (simp add: loop_done)
  next
    case running: True
    show ?thesis
    proof (cases "returned ?g")
      case True
      with running show ?thesis by (simp add: loop_return)
    next
      case False
      show ?thesis
      proof (cases "switched ?g")
        case True
        then have "quals_stop \<le> stars_after ?g"
          using game_body_switched_below by fastforce
        with "1.prems" have "\<forall>g \<in> set (games ?rest). \<not> switched g"
          by (rule loop_no_switch_above)
        then have "filter switched (games ?rest) = []"
          by (simp add: filter_empty_conv)
        with running False show ?thesis by (simp add: loop_next Let_def)
      next
        case quiet: False
        from "1.IH" [OF running refl False "1.prems"] running False quiet
        show ?thesis by (simp add: loop_next Let_def)
      qed
    qed
  qed
qed

lemma absorbing_Cons:
  fixes q c :: int
  assumes head: "q \<le> c \<Longrightarrow> \<forall>x \<in> set cs. q \<le> x"
    and tail: "\<forall>i j. i \<le> j \<longrightarrow> j < length cs \<longrightarrow> q \<le> cs ! i \<longrightarrow> q \<le> cs ! j"
  shows "\<forall>i j. i \<le> j \<longrightarrow> j < length (c # cs) \<longrightarrow> q \<le> (c # cs) ! i \<longrightarrow> q \<le> (c # cs) ! j"
proof (intro allI impI)
  fix i j
  assume ij: "i \<le> j" and j: "j < length (c # cs)" and qi: "q \<le> (c # cs) ! i"
  show "q \<le> (c # cs) ! j"
  proof (cases i)
    case 0
    with qi have c: "q \<le> c" by simp
    from head [OF c] c j show ?thesis
      by (cases j) simp_all
  next
    case (Suc i')
    with ij obtain j' where j': "j = Suc j'" "i' \<le> j'"
      by (cases j) simp_all
    with tail Suc j qi show ?thesis by simp
  qed
qed

lemma loop_absorbing:
  "q \<in> stops \<Longrightarrow>
   \<forall>i j. i \<le> j \<longrightarrow>
     j < length (total_stars # map stars_after (games (loop stars stops quals_stop quals_win_rate
            games_played rng game total_stars win_rate))) \<longrightarrow>
     q \<le> (total_stars # map stars_after (games (loop stars stops quals_stop quals_win_rate
            games_played rng game total_stars win_rate))) ! i \<longrightarrow>
     q \<le> (total_stars # map stars_after (games (loop stars stops quals_stop quals_win_rate
            games_played rng game total_stars win_rate))) ! j"
proof (induction stars stops quals_stop quals_win_rate games_played rng game total_stars win_rate
       rule: loop.induct)
  case (1 stars stops quals_stop quals_win_rate games_played rng game total_stars win_rate)
  let ?t = "loop stars stops quals_stop quals_win_rate games_played rng game total_stars win_rate"
  let ?g = "game_body stars stops quals_stop quals_win_rate (rng (nat game)) total_stars win_rate"
  let ?rest = "loop stars stops quals_stop quals_win_rate games_played rng (game + 1)
                 (stars_after ?g) (rate_after ?g)"
  have head: "q \<le> total_stars \<Longrightarrow> \<forall>x \<in> set (map stars_after (games ?t)). q \<le> x"
    using loop_floor [OF "1.prems", of total_stars stars quals_stop quals_win_rate games_played
        rng game win_rate] by simp
  have tail: "\<forall>i j. i \<le> j \<longrightarrow> j < length (map stars_after (games ?t)) \<longrightarrow>
      q \<le> map stars_after (games ?t) ! i \<longrightarrow> q \<le> map stars_after (games ?t) ! j"
  proof (cases "game < games_played")
    case False
    then show ?thesis by (simp add: loop_done)
  next
    case running: True
    show ?thesis
    proof (cases "returned ?g")
      case True
      with running show ?thesis by (simp add: loop_return)
    next
      case False
      have "map stars_after (games ?t) = stars_after ?g # map stars_after (games ?rest)"
        using running False by (simp add: loop_next Let_def)
      with "1.IH" [OF running refl False "1.prems"] show ?thesis by simp
    qed
  qed
  from head tail show ?case by (rule absorbing_Cons)
qed

lemma loop_draws_used:
  "draws_used (loop stars stops quals_stop quals_win_rate games_played rng game total_stars win_rate)
     = length (games (loop stars stops quals_stop quals_win_rate games_played rng game
                        total_stars win_rate))"
proof (induction stars stops quals_stop quals_win_rate games_played rng game total_stars win_rate
       rule: loop.induct)
  case (1 stars stops quals_stop quals_win_rate games_played rng game total_stars win_rate)
  let ?g = "game_body stars stops quals_stop quals_win_rate (rng (nat game)) total_stars win_rate"
  show ?case
  proof (cases "game < games_played")
    case False
    then show ?thesis by (simp add: loop_done)
  next
    case running: True
    show ?thesis
    proof (cases "returned ?g")
      case True
      with running show ?thesis by (simp add: loop_return)
    next
      case False
      from "1.IH" [OF running refl False] running False
      show ?thesis by (simp add: loop_next Let_def)
    qed
  qed
qed

lemma loop_draws_bound:
  "draws_used (loop stars stops quals_stop quals_win_rate games_played rng game total_stars win_rate)
     \<le> nat (games_played - game)"
proof (induction stars stops quals_stop quals_win_rate games_played rng game total_stars win_rate
       rule: loop.induct)
  case (1 stars stops quals_stop quals_win_rate games_played rng game total_stars win_rate)
  let ?g = "game_body stars stops quals_stop quals_win_rate (rng (nat game)) total_stars win_rate"
  show ?case
  proof (cases "game < games_played")
    case False
    then show ?thesis by (simp add: loop_done)
  next
    case running: True
    show ?thesis
    proof (cases "returned ?g")
      case True
      with running show ?thesis by (simp add: loop_return)
    next
      case False
      from "1.IH" [OF running refl False] running False
      show ?thesis by (simp add: loop_next Let_def)
    qed
  qed
qed

lemma game_body_rate_zero:
  "0 \<le> cutoff \<Longrightarrow>
   game_body stars stops quals_stop quals_win_rate cutoff total_stars 0 =
     \<lparr>won = False, switched = False,
      stars_after = (if total_stars \<notin> stops then total_stars - 1 else total_stars),
      rate_after = 0, returned = False\<rparr>"
  by (simp add: game_body_def)

lemma loop_rate_zero:
  "\<forall>n. 0 \<le> rng n \<Longrightarrow>
   result (loop stars stops quals_stop quals_win_rate games_played rng game total_stars 0) = 0 \<and>
   draws_used (loop stars stops quals_stop quals_win_rate games_played rng game total_stars 0)
     = nat (games_played - game) \<and>
   (\<forall>g \<in> set (games (loop stars stops quals_stop quals_win_rate games_played rng game
                         total_stars 0)). \<not> won g)"
proof (induction "nat (games_played - game)" arbitrary: game total_stars)
  case 0
  then have "\<not> game < games_played" by simp
  then show ?case by (simp add: loop_done)
next
  case (Suc n)
  then have running: "game < games_played" by linarith
  let ?g = "game_body stars stops quals_stop quals_win_rate (rng (nat game)) total_stars 0"
  have g: "?g = \<lparr>won = False, switched = False,
      stars_after = (if total_stars \<notin> stops then total_stars - 1 else total_stars),
      rate_after = 0, returned = False\<rparr>"
    using Suc.prems by (simp add: game_body_rate_zero)
  have n: "n = nat (games_played - (game + 1))"
    using Suc.hyps(2) by linarith
  from Suc.hyps(1) [OF n Suc.prems, of "stars_after ?g"] running Suc.hyps(2)
  show ?case
    by (simp add: loop_next Let_def g)
qed

section \<open>The range of the returned value\<close>

lemma quals_stop_is_stop: "Max (set (stops @ [0::int])) \<in> set (stops @ [0])"
  by (rule Max_in) simp_all

text \<open>
  Claim C5. For every call with \<open>games_played \<ge> 1\<close> and every draw sequence,
  \<^verbatim>\<open>sim_league\<close> returns 0 or a game number between 1 and \<open>games_played\<close>: the
  returned value is never negative and never exceeds \<open>games_played\<close>.
\<close>

theorem sim_league_result_range:
  "1 \<le> games_played \<Longrightarrow>
   result (trial_of (sim_league stars stops win_rate quals_win_rate games_played rng))
     \<in> {0} \<union> {1..games_played}"
  using loop_result_range [of 0 stars "set (stops @ [0])" "Max (set (stops @ [0]))"
      "if py_not quals_win_rate then win_rate else the quals_win_rate" games_played rng 0 win_rate]
  by (auto simp: sim_league_def Let_def)

theorem sim_league_result_range_witness:
  "(1::int) \<le> 10 \<and>
   result (trial_of (sim_league 3 [1] 1 None 10 (\<lambda>n. 1 / 2))) = 3 \<and>
   result (trial_of (sim_league 3 [1] 1 None 10 (\<lambda>n. 1 / 2))) \<in> {0} \<union> {1..10}"
proof -
  have h: "(1::int) \<le> 10" by simp
  have v: "result (trial_of (sim_league 3 [1] 1 None 10 (\<lambda>n. 1 / 2))) = 3"
    by code_simp
  from h v sim_league_result_range [OF h, of 3 "[1]" 1 None "\<lambda>n. 1 / 2"]
  show ?thesis by simp
qed

text \<open>
  Claim C9. When the highest stop is not below \<open>stars\<close>, the call still comes back: it
  plays at most \<open>games_played\<close> games and returns 0 or a game number between 1 and
  \<open>games_played\<close>. (\<^verbatim>\<open>sim_league\<close> has no \<^verbatim>\<open>raise\<close>, and \<^verbatim>\<open>max(stops)\<close> is taken
  of a set that holds 0, so the model has no error value.)
\<close>

theorem sim_league_survives_high_stop:
  "stars \<le> Max (set (stops @ [0])) \<Longrightarrow> 1 \<le> games_played \<Longrightarrow>
   result (trial_of (sim_league stars stops win_rate quals_win_rate games_played rng))
     \<in> {0} \<union> {1..games_played} \<and>
   draws_used (trial_of (sim_league stars stops win_rate quals_win_rate games_played rng))
     \<le> nat games_played"
  using loop_result_range [of 0 stars "set (stops @ [0])" "Max (set (stops @ [0]))"
      "if py_not quals_win_rate then win_rate else the quals_win_rate" games_played rng 0 win_rate]
    loop_draws_bound [of stars "set (stops @ [0])" "Max (set (stops @ [0]))"
      "if py_not quals_win_rate then win_rate else the quals_win_rate" games_played rng 0 0 win_rate]
  by (auto simp: sim_league_def Let_def)

theorem sim_league_survives_high_stop_witness:
  "(2::int) \<le> Max (set ([5] @ [0])) \<and> (1::int) \<le> 4 \<and>
   result (trial_of (sim_league 2 [5] 1 None 4 (\<lambda>n. 1 / 2))) = 2 \<and>
   result (trial_of (sim_league 2 [5] 1 None 4 (\<lambda>n. 1 / 2))) \<in> {0} \<union> {1..4} \<and>
   draws_used (trial_of (sim_league 2 [5] 1 None 4 (\<lambda>n. 1 / 2))) \<le> nat 4"
proof -
  have h1: "(2::int) \<le> Max (set ([5] @ [0]))" by simp
  have h2: "(1::int) \<le> 4" by simp
  have v: "result (trial_of (sim_league 2 [5] 1 None 4 (\<lambda>n. 1 / 2))) = 2"
    by code_simp
  from h1 h2 v sim_league_survives_high_stop [OF h1 h2, of 1 None "\<lambda>n. 1 / 2"]
  show ?thesis by simp
qed

section \<open>The star counter and its floors\<close>

text \<open>
  Claim C6. During every trial the star counter is never negative: every value it takes,
  from its initial 0 to its value after each game, is at least 0, whatever the stops, the
  rates and the draws are. The reason is that 0 is among the stops: a loss at counter
  value 0 leaves the counter at 0.
\<close>

theorem star_counter_never_negative:
  "(\<forall>c \<in> set (counter_values
       (trial_of (sim_league stars stops win_rate quals_win_rate games_played rng))). 0 \<le> c) \<and>
   (\<not> rate > cutoff \<longrightarrow>
      stars_after (game_body stars (set (stops @ [0])) quals_stop quals_rate cutoff 0 rate) = 0)"
proof
  show "\<forall>c \<in> set (counter_values
       (trial_of (sim_league stars stops win_rate quals_win_rate games_played rng))). 0 \<le> c"
    using loop_floor [of 0 "set (stops @ [0])" 0 stars "Max (set (stops @ [0]))"
        "if py_not quals_win_rate then win_rate else the quals_win_rate" games_played rng 0
        win_rate]
    by (simp add: sim_league_def counter_values_def Let_def)
  show "\<not> rate > cutoff \<longrightarrow>
      stars_after (game_body stars (set (stops @ [0])) quals_stop quals_rate cutoff 0 rate) = 0"
    by (simp add: game_body_def)
qed

theorem star_counter_never_negative_witness:
  "counter_values (trial_of (sim_league 3 [] (1 / 2) None 4
       (\<lambda>n. if n = 1 then 1 / 4 else 3 / 4))) = [0, 0, 1, 0, 0] \<and>
   (1::int) \<in> set (counter_values (trial_of (sim_league 3 [] (1 / 2) None 4
       (\<lambda>n. if n = 1 then 1 / 4 else 3 / 4)))) \<and>
   (0::int) \<le> 1 \<and>
   \<not> (1 / 2 :: rat) > 3 / 4 \<and>
   stars_after (game_body 3 (set ([] @ [0])) 0 (1 / 2) (3 / 4) 0 (1 / 2)) = 0"
proof -
  have v: "counter_values (trial_of (sim_league 3 [] (1 / 2) None 4
       (\<lambda>n. if n = 1 then 1 / 4 else 3 / 4))) = [0, 0, 1, 0, 0]"
    by code_simp
  have h: "\<not> (1 / 2 :: rat) > 3 / 4" by simp
  from v h star_counter_never_negative [where stars = 3 and stops = "[]" and win_rate = "1 / 2"
      and quals_win_rate = None and games_played = 4
      and rng = "\<lambda>n. if n = 1 then 1 / 4 else 3 / 4"
      and rate = "1 / 2" and cutoff = "3 / 4" and quals_stop = 0 and quals_rate = "1 / 2"]
  show ?thesis by simp
qed

text \<open>
  Claim C10. The highest stop \<open>quals_stop\<close> is an absorbing floor: once the star counter
  is at least \<open>quals_stop\<close>, it is so for the rest of the trial. So at most one game of a
  trial is a win that brings the counter to \<open>quals_stop\<close>, and the assignment
  \<^verbatim>\<open>win_rate = quals_win_rate\<close> is executed at most once in a trial.
\<close>

theorem highest_stop_absorbs:
  "(\<forall>i j. i \<le> j \<longrightarrow>
      j < length (counter_values
            (trial_of (sim_league stars stops win_rate quals_win_rate games_played rng))) \<longrightarrow>
      Max (set (stops @ [0])) \<le> counter_values
            (trial_of (sim_league stars stops win_rate quals_win_rate games_played rng)) ! i \<longrightarrow>
      Max (set (stops @ [0])) \<le> counter_values
            (trial_of (sim_league stars stops win_rate quals_win_rate games_played rng)) ! j) \<and>
   length (filter (\<lambda>g. won g \<and> stars_after g = Max (set (stops @ [0])))
      (games (trial_of (sim_league stars stops win_rate quals_win_rate games_played rng)))) \<le> 1 \<and>
   length (filter switched
      (games (trial_of (sim_league stars stops win_rate quals_win_rate games_played rng)))) \<le> 1"
proof -
  let ?stops = "set (stops @ [0])"
  let ?qs = "Max ?stops"
  let ?q = "if py_not quals_win_rate then win_rate else the quals_win_rate"
  let ?t = "loop stars ?stops ?qs ?q games_played rng 0 0 win_rate"
  have t: "trial_of (sim_league stars stops win_rate quals_win_rate games_played rng) = ?t"
    by (simp add: sim_league_def Let_def)
  have a: "\<forall>i j. i \<le> j \<longrightarrow> j < length (counter_values ?t) \<longrightarrow>
      ?qs \<le> counter_values ?t ! i \<longrightarrow> ?qs \<le> counter_values ?t ! j"
    unfolding counter_values_def
    by (rule loop_absorbing) (rule quals_stop_is_stop)
  have c: "length (filter switched (games ?t)) \<le> 1"
    by (rule loop_switch_once) (rule quals_stop_is_stop)
  have "filter (\<lambda>g. won g \<and> stars_after g = ?qs) (games ?t) = filter switched (games ?t)"
    by (rule filter_cong [OF refl]) (simp add: loop_switched_iff)
  with c have b: "length (filter (\<lambda>g. won g \<and> stars_after g = ?qs) (games ?t)) \<le> 1"
    by simp
  from a b c show ?thesis
    unfolding t by blast
qed

theorem highest_stop_absorbs_witness:
  "counter_values (trial_of (sim_league 3 [1] (1 / 2) None 4
       (\<lambda>n. if n = 0 \<or> n = 3 then 1 / 4 else 3 / 4))) = [0, 1, 1, 1, 2] \<and>
   (1::nat) \<le> 3 \<and>
   3 < length (counter_values (trial_of (sim_league 3 [1] (1 / 2) None 4
       (\<lambda>n. if n = 0 \<or> n = 3 then 1 / 4 else 3 / 4)))) \<and>
   Max (set ([1] @ [0])) \<le> counter_values (trial_of (sim_league 3 [1] (1 / 2) None 4
       (\<lambda>n. if n = 0 \<or> n = 3 then 1 / 4 else 3 / 4))) ! 1 \<and>
   Max (set ([1] @ [0])) \<le> counter_values (trial_of (sim_league 3 [1] (1 / 2) None 4
       (\<lambda>n. if n = 0 \<or> n = 3 then 1 / 4 else 3 / 4))) ! 3 \<and>
   length (filter switched (games (trial_of (sim_league 3 [1] (1 / 2) None 4
       (\<lambda>n. if n = 0 \<or> n = 3 then 1 / 4 else 3 / 4))))) \<le> 1"
proof -
  let ?t = "trial_of (sim_league 3 [1] (1 / 2) None 4
       (\<lambda>n. if n = 0 \<or> n = 3 then 1 / 4 else 3 / 4))"
  have v: "counter_values ?t = [0, 1, 1, 1, 2]"
    by code_simp
  note run = highest_stop_absorbs [where stars = 3 and stops = "[1]" and win_rate = "1 / 2"
      and quals_win_rate = None and games_played = 4
      and rng = "\<lambda>n. if n = 0 \<or> n = 3 then 1 / 4 else 3 / 4"]
  from run have once: "length (filter switched (games ?t)) \<le> 1"
    by blast
  from run have "(1::nat) \<le> 3 \<longrightarrow> 3 < length (counter_values ?t) \<longrightarrow>
      Max (set ([1] @ [0])) \<le> counter_values ?t ! 1 \<longrightarrow>
      Max (set ([1] @ [0])) \<le> counter_values ?t ! 3"
    by blast
  with v once show ?thesis by simp
qed

section \<open>A win rate of zero\<close>

text \<open>
  Claim C8. With \<open>win_rate = 0\<close> and draws in \<open>[0, 1)\<close>, every game is a loss (a draw
  equal to the win rate, here 0, is a loss, since a win needs \<^verbatim>\<open>win_rate > cutoff\<close>), and
  \<^verbatim>\<open>sim_league\<close> returns 0 after exactly \<open>games_played\<close> draws. This holds for every
  \<open>stars\<close>, in particular for \<open>stars > 0\<close>, and for every \<open>quals_win_rate\<close>.
\<close>

theorem zero_win_rate_exhausts_budget:
  "unit_draws rng \<Longrightarrow>
   result (trial_of (sim_league stars stops 0 quals_win_rate games_played rng)) = 0 \<and>
   draws_used (trial_of (sim_league stars stops 0 quals_win_rate games_played rng))
     = nat games_played \<and>
   length (games (trial_of (sim_league stars stops 0 quals_win_rate games_played rng)))
     = nat games_played \<and>
   (\<forall>g \<in> set (games (trial_of (sim_league stars stops 0 quals_win_rate games_played rng))).
      \<not> won g)"
proof -
  assume "unit_draws rng"
  then have draws: "\<forall>n. 0 \<le> rng n"
    by (simp add: unit_draws_def)
  let ?q = "if py_not quals_win_rate then 0 else the quals_win_rate"
  note run = loop_rate_zero [OF draws, of stars "set (stops @ [0])" "Max (set (stops @ [0]))"
      ?q games_played 0 0]
  note len = loop_draws_used [of stars "set (stops @ [0])" "Max (set (stops @ [0]))"
      ?q games_played rng 0 0 0]
  from run len show ?thesis
    by (simp add: sim_league_def Let_def)
qed

theorem zero_win_rate_exhausts_budget_witness:
  "unit_draws (\<lambda>n. 0) \<and>
   result (trial_of (sim_league 1 [1, 2, 6, 14] 0 (Some 1) 5 (\<lambda>n. 0))) = 0 \<and>
   draws_used (trial_of (sim_league 1 [1, 2, 6, 14] 0 (Some 1) 5 (\<lambda>n. 0))) = 5 \<and>
   map won (games (trial_of (sim_league 1 [1, 2, 6, 14] 0 (Some 1) 5 (\<lambda>n. 0))))
     = [False, False, False, False, False]"
proof -
  have h: "unit_draws (\<lambda>n. 0)"
    by (simp add: unit_draws_def)
  have v: "map won (games (trial_of (sim_league 1 [1, 2, 6, 14] 0 (Some 1) 5 (\<lambda>n. 0))))
     = [False, False, False, False, False]"
    by code_simp
  from h v zero_win_rate_exhausts_budget [OF h, of 1 "[1, 2, 6, 14]" "Some 1" 5]
  show ?thesis by simp
qed

section \<open>Raising the win rate\<close>

text \<open>
  Two trials on the same draws, the second with the higher win rate and both without a
  separate rate for the qualification games: the second wins every game the first wins, so
  its counter is never behind, and it returns no later.
\<close>

lemma game_body_coupled:
  assumes "quals_stop < stars" and "r1 \<le> r2" and "ts1 \<le> ts2" and "ts2 < stars"
  shows "rate_after (game_body stars stops quals_stop r1 cutoff ts1 r1) = r1"
    and "rate_after (game_body stars stops quals_stop r2 cutoff ts2 r2) = r2"
    and "returned (game_body stars stops quals_stop r1 cutoff ts1 r1) \<Longrightarrow>
         returned (game_body stars stops quals_stop r2 cutoff ts2 r2)"
    and "\<not> returned (game_body stars stops quals_stop r2 cutoff ts2 r2) \<Longrightarrow>
         stars_after (game_body stars stops quals_stop r1 cutoff ts1 r1)
           \<le> stars_after (game_body stars stops quals_stop r2 cutoff ts2 r2) \<and>
         stars_after (game_body stars stops quals_stop r2 cutoff ts2 r2) < stars"
proof -
  show "rate_after (game_body stars stops quals_stop r1 cutoff ts1 r1) = r1"
    by (simp add: game_body_def Let_def)
  show "rate_after (game_body stars stops quals_stop r2 cutoff ts2 r2) = r2"
    by (simp add: game_body_def Let_def)
  show "returned (game_body stars stops quals_stop r1 cutoff ts1 r1) \<Longrightarrow>
         returned (game_body stars stops quals_stop r2 cutoff ts2 r2)"
    using assms by (auto simp: game_body_def Let_def split: if_splits)
  show "\<not> returned (game_body stars stops quals_stop r2 cutoff ts2 r2) \<Longrightarrow>
         stars_after (game_body stars stops quals_stop r1 cutoff ts1 r1)
           \<le> stars_after (game_body stars stops quals_stop r2 cutoff ts2 r2) \<and>
         stars_after (game_body stars stops quals_stop r2 cutoff ts2 r2) < stars"
    using assms
    by (cases "ts1 = ts2") (auto simp: game_body_def Let_def split: if_splits)
qed

lemma loop_coupled:
  assumes "quals_stop < stars" and "r1 \<le> r2"
  shows "0 \<le> game \<Longrightarrow> ts1 \<le> ts2 \<Longrightarrow> ts2 < stars \<Longrightarrow>
    result (loop stars stops quals_stop r1 games_played rng game ts1 r1) \<noteq> 0 \<Longrightarrow>
    result (loop stars stops quals_stop r2 games_played rng game ts2 r2) \<noteq> 0 \<and>
    result (loop stars stops quals_stop r2 games_played rng game ts2 r2)
      \<le> result (loop stars stops quals_stop r1 games_played rng game ts1 r1)"
proof (induction "nat (games_played - game)" arbitrary: game ts1 ts2)
  case 0
  then have "\<not> game < games_played" by simp
  with "0.prems"(4) show ?case by (simp add: loop_done)
next
  case (Suc n)
  then have running: "game < games_played" by linarith
  let ?g1 = "game_body stars stops quals_stop r1 (rng (nat game)) ts1 r1"
  let ?g2 = "game_body stars stops quals_stop r2 (rng (nat game)) ts2 r2"
  note body = game_body_coupled [OF assms Suc.prems(2,3), of stops "rng (nat game)"]
  show ?case
  proof (cases "returned ?g2")
    case True
    from loop_result_range [OF Suc.prems(1), of stars stops quals_stop r1 games_played rng ts1 r1]
      Suc.prems(4)
    have "game < result (loop stars stops quals_stop r1 games_played rng game ts1 r1)"
      by simp
    with True running Suc.prems(1) show ?thesis
      by (simp add: loop_return)
  next
    case False
    with body(3) have going: "\<not> returned ?g1" by blast
    have n: "n = nat (games_played - (game + 1))"
      using Suc.hyps(2) by linarith
    have next1: "result (loop stars stops quals_stop r1 games_played rng game ts1 r1)
        = result (loop stars stops quals_stop r1 games_played rng (game + 1) (stars_after ?g1) r1)"
      using running going body(1) by (simp add: loop_next Let_def)
    have next2: "result (loop stars stops quals_stop r2 games_played rng game ts2 r2)
        = result (loop stars stops quals_stop r2 games_played rng (game + 1) (stars_after ?g2) r2)"
      using running False body(2) by (simp add: loop_next Let_def)
    from body(4) [OF False] have le: "stars_after ?g1 \<le> stars_after ?g2"
      and below: "stars_after ?g2 < stars"
      by simp_all
    from Suc.prems(1) have "0 \<le> game + 1" by simp
    from Suc.hyps(1) [OF n this le below] Suc.prems(4) show ?thesis
      by (simp add: next1 next2)
  qed
qed

lemma num_quals_mono:
  "(\<And>x. 0 < f x \<Longrightarrow> 0 < h x) \<Longrightarrow> num_quals (map f xs) \<le> num_quals (map h xs)"
  unfolding num_quals_def by (induction xs) auto

lemma sim_league_result_pos:
  "0 < result (trial_of (sim_league stars stops win_rate quals_win_rate games_played rng)) \<longleftrightarrow>
   result (trial_of (sim_league stars stops win_rate quals_win_rate games_played rng)) \<noteq> 0"
  using loop_result_range [of 0 stars "set (stops @ [0])" "Max (set (stops @ [0]))"
      "if py_not quals_win_rate then win_rate else the quals_win_rate" games_played rng 0 win_rate]
  by (auto simp: sim_league_def Let_def)

lemma sim_league_coupled:
  assumes "Max (set (stops @ [0])) < stars" and "r1 \<le> r2"
    and "result (trial_of (sim_league stars stops r1 None games_played rng)) \<noteq> 0"
  shows "result (trial_of (sim_league stars stops r2 None games_played rng)) \<noteq> 0 \<and>
    result (trial_of (sim_league stars stops r2 None games_played rng))
      \<le> result (trial_of (sim_league stars stops r1 None games_played rng))"
proof -
  have "(0::int) \<le> Max (set (stops @ [0]))"
    by (rule Max_ge) simp_all
  with assms(1) have pos: "0 < stars" by simp
  from assms(3) loop_coupled [OF assms(1,2), of 0 0 0 "set (stops @ [0])" games_played rng] pos
  show ?thesis
    by (simp add: sim_league_def py_not_def Let_def)
qed

text \<open>
  Claim C7. With \<open>quals_win_rate\<close> not given and the highest stop below \<open>stars\<close>, for
  every draw sequence and all win rates \<open>r1 \<le> r2\<close>: if the trial at \<open>r1\<close> qualifies, the
  trial at \<open>r2\<close> qualifies too, at a game number that is not larger. Hence over any runs
  that use the same draw sequences for both rates, the proportion of qualifications at
  \<open>r2\<close> is not below the one at \<open>r1\<close>.
\<close>

theorem win_rate_monotone:
  assumes "Max (set (stops @ [0])) < stars" and "r1 \<le> r2"
  shows "(result (trial_of (sim_league stars stops r1 None games_played rng)) \<noteq> 0 \<longrightarrow>
      result (trial_of (sim_league stars stops r2 None games_played rng)) \<noteq> 0 \<and>
      result (trial_of (sim_league stars stops r2 None games_played rng))
        \<le> result (trial_of (sim_league stars stops r1 None games_played rng))) \<and>
    proportion_quals
        (map (\<lambda>rng. result (trial_of (sim_league stars stops r1 None games_played rng))) rngs)
      \<le> proportion_quals
        (map (\<lambda>rng. result (trial_of (sim_league stars stops r2 None games_played rng))) rngs)"
proof
  show "result (trial_of (sim_league stars stops r1 None games_played rng)) \<noteq> 0 \<longrightarrow>
      result (trial_of (sim_league stars stops r2 None games_played rng)) \<noteq> 0 \<and>
      result (trial_of (sim_league stars stops r2 None games_played rng))
        \<le> result (trial_of (sim_league stars stops r1 None games_played rng))"
    using sim_league_coupled [OF assms] by blast
  have "num_quals
        (map (\<lambda>rng. result (trial_of (sim_league stars stops r1 None games_played rng))) rngs)
      \<le> num_quals
        (map (\<lambda>rng. result (trial_of (sim_league stars stops r2 None games_played rng))) rngs)"
  proof (rule num_quals_mono)
    fix rng
    assume "0 < result (trial_of (sim_league stars stops r1 None games_played rng))"
    then have "result (trial_of (sim_league stars stops r1 None games_played rng)) \<noteq> 0"
      by simp
    from sim_league_coupled [OF assms this]
    show "0 < result (trial_of (sim_league stars stops r2 None games_played rng))"
      by (simp add: sim_league_result_pos)
  qed
  then show "proportion_quals
        (map (\<lambda>rng. result (trial_of (sim_league stars stops r1 None games_played rng))) rngs)
      \<le> proportion_quals
        (map (\<lambda>rng. result (trial_of (sim_league stars stops r2 None games_played rng))) rngs)"
    by (simp add: proportion_quals_def divide_right_mono)
qed

theorem win_rate_monotone_witness:
  "Max (set ([] @ [0])) < (2::int) \<and> (1 / 2 :: rat) \<le> 3 / 4 \<and>
   result (trial_of (sim_league 2 [] (1 / 2) None 5 (\<lambda>n. if n = 0 then 3 / 5 else 2 / 5))) = 3 \<and>
   result (trial_of (sim_league 2 [] (3 / 4) None 5 (\<lambda>n. if n = 0 then 3 / 5 else 2 / 5))) \<noteq> 0 \<and>
   result (trial_of (sim_league 2 [] (3 / 4) None 5 (\<lambda>n. if n = 0 then 3 / 5 else 2 / 5)))
     \<le> result (trial_of (sim_league 2 [] (1 / 2) None 5 (\<lambda>n. if n = 0 then 3 / 5 else 2 / 5)))"
proof -
  have h1: "Max (set ([] @ [0])) < (2::int)" by simp
  have h2: "(1 / 2 :: rat) \<le> 3 / 4" by simp
  have v: "result (trial_of (sim_league 2 [] (1 / 2) None 5
      (\<lambda>n. if n = 0 then 3 / 5 else 2 / 5))) = 3"
    by code_simp
  from h1 h2 v win_rate_monotone [OF h1 h2, of 5 "\<lambda>n. if n = 0 then 3 / 5 else 2 / 5" "[]"]
  show ?thesis by simp
qed

section \<open>Where the code leaves its documentation\<close>

lemma game_body_stop_equals_stars:
  "\<not> returned (game_body stars stops stars quals_win_rate cutoff total_stars win_rate)"
  by (simp add: game_body_def Let_def)

lemma loop_stop_equals_stars:
  "result (loop stars stops stars quals_win_rate games_played rng game total_stars win_rate) = 0"
proof (induction "nat (games_played - game)" arbitrary: game total_stars win_rate)
  case 0
  then have "\<not> game < games_played" by simp
  then show ?case by (simp add: loop_done)
next
  case (Suc n)
  then have running: "game < games_played" by linarith
  have n: "n = nat (games_played - (game + 1))"
    using Suc.hyps(2) by linarith
  from Suc.hyps(1) [OF n] running show ?case
    by (simp add: loop_next game_body_stop_equals_stars Let_def)
qed

lemma sim_league_stop_equals_stars:
  "Max (set (stops @ [0])) = stars \<Longrightarrow>
   result (trial_of (sim_league stars stops win_rate quals_win_rate games_played rng)) = 0"
  using loop_stop_equals_stars [of stars "set (stops @ [0])"]
  by (simp add: sim_league_def Let_def)

text \<open>
  Claim C1, evaluated on the code. With \<open>stars = 3\<close>, the single stop 3 and a player who
  wins every game, the third game is a win that brings the counter to 3: the pass takes the
  \<^verbatim>\<open>if total_stars == quals_stop\<close> branch, the \<^verbatim>\<open>elif total_stars == stars\<close> is not
  looked at, and the call returns 0 after ten games instead of 3.
\<close>

theorem qualification_missed_at_highest_stop:
  "games (trial_of (sim_league 3 [3] 1 None 10 (\<lambda>n. 1 / 2))) ! 2 =
     \<lparr>won = True, switched = True, stars_after = 3, rate_after = 1, returned = False\<rparr> \<and>
   result (trial_of (sim_league 3 [3] 1 None 10 (\<lambda>n. 1 / 2))) = 0"
  by code_simp

lemma sim_league_zero_quals_win_rate:
  "sim_league stars stops win_rate (Some 0) games_played rng =
   sim_league stars stops win_rate None games_played rng"
  by (simp add: sim_league_def py_not_def)

text \<open>
  Claim C2, evaluated on the code. With \<open>quals_win_rate = 0\<close> given, \<open>win_rate = 1\<close> and
  the single stop 1, the first game brings the counter to the stop and executes
  \<^verbatim>\<open>win_rate = quals_win_rate\<close>, but \<^verbatim>\<open>if not quals_win_rate\<close> has replaced the given 0
  by \<open>win_rate\<close> before: the rate stays 1 and the call returns 3, where a rate of 0 after
  the stop would win no further game.
\<close>

theorem zero_quals_win_rate_ignored:
  "map switched (games (trial_of (sim_league 3 [1] 1 (Some 0) 10 (\<lambda>n. 1 / 2))))
     = [True, False, False] \<and>
   map rate_after (games (trial_of (sim_league 3 [1] 1 (Some 0) 10 (\<lambda>n. 1 / 2))))
     = [1, 1, 1] \<and>
   result (trial_of (sim_league 3 [1] 1 (Some 0) 10 (\<lambda>n. 1 / 2))) = 3"
  by code_simp

lemma sim_league_stops_after:
  "stops_after (sim_league stars stops win_rate quals_win_rate games_played rng) = stops @ [0]"
  by (simp add: sim_league_def Let_def)

lemma sim_league_same_trial_after_append:
  "trial_of (sim_league stars (stops @ [0]) win_rate quals_win_rate games_played rng) =
   trial_of (sim_league stars stops win_rate quals_win_rate games_played rng)"
  by (simp add: sim_league_def Let_def)

text \<open>
  Claim C3, evaluated on the code. A call leaves the caller's list one element longer:
  after one call on \<^verbatim>\<open>DEFAULT_STOPS\<close> the list is \<open>[1, 2, 6, 14, 0]\<close>, after the next call
  on the same list it is \<open>[1, 2, 6, 14, 0, 0]\<close>.
\<close>

theorem callers_stops_list_grows:
  "stops_after (sim_league 19 DEFAULT_STOPS (1 / 2) None 1 (\<lambda>n. 1 / 2)) = [1, 2, 6, 14, 0] \<and>
   stops_after (sim_league 19
       (stops_after (sim_league 19 DEFAULT_STOPS (1 / 2) None 1 (\<lambda>n. 1 / 2)))
       (1 / 2) None 1 (\<lambda>n. 1 / 2)) = [1, 2, 6, 14, 0, 0]"
  by (simp add: sim_league_def DEFAULT_STOPS_def Let_def)

text \<open>
  Claim C4, evaluated on the code. With \<^verbatim>\<open>--quals_win_rate=2.0\<close> and the defaults for
  the other options, the checks raise nothing and hand 2 over as \<open>quals_win_rate\<close>: the
  condition under the conversion of \<^verbatim>\<open>quals_win_rate_text\<close> tests \<open>win_rate\<close> again.
\<close>

theorem quals_win_rate_out_of_range_accepted:
  "check_inputs
     (map_of [(''19'', 19), (''200'', 200), (''1000'', 1000)])
     (map_of [(''.50'', 1 / 2), (''2.0'', 2)])
     \<lparr>opt_stars = ''19'', opt_stop = [], opt_win_rate = ''.50'',
      opt_quals_win_rate = Some ''2.0'', opt_games_played = ''200'', opt_runs = ''1000''\<rparr>
   = Inr \<lparr>set_stars = 19, set_stops = [1, 2, 6, 14], set_win_rate = 1 / 2,
          set_quals_win_rate = 2, set_games_played = 200, set_runs = 1000\<rparr>"
  by (simp add: check_inputs_def DEFAULT_STOPS_def)

lemma convert_stops_error:
  "convert_stops int_of stops_text = Inl e \<Longrightarrow> e = Bad_literal"
  by (induction stops_text arbitrary: e) (auto split: option.splits sum.splits)

lemma check_inputs_never_Bad_quals_win_rate:
  "check_inputs int_of float_of opts \<noteq> Inl Bad_quals_win_rate"
  by (auto simp: check_inputs_def split: option.splits sum.splits if_splits
      dest: convert_stops_error)

end
